theory Spec2Isabelle
  imports Main "HOL-Library.AList"
begin

section \<open>JavaScript values and exceptions\<close>

text \<open>
  Every value the services receive comes out of \<^verbatim>\<open>JSON.parse\<close> or a parsed request
  body, so a value is a finite tree. \<open>JUndefined\<close> and \<open>JNaN\<close> are added because the
  code tests for them (\<^verbatim>\<open>value === undefined\<close>, \<^verbatim>\<open>Boolean(result)\<close>). An object is the
  list of its own properties in the order \<^verbatim>\<open>Object.entries\<close> yields them. Numbers are
  modelled by integers: the code never computes with them.
\<close>

datatype jsval =
    JUndefined
  | JNull
  | JBool bool
  | JNum int
  | JNaN
  | JStr string
  | JArr "jsval list"
  | JObj "(string \<times> jsval) list"

datatype js_error =
    Error string
  | TypeError string
  | ReferenceError string
  | RangeError string

fun message :: "js_error \<Rightarrow> string" where
  "message (Error m) = m"
| "message (TypeError m) = m"
| "message (ReferenceError m) = m"
| "message (RangeError m) = m"

text \<open>\<^verbatim>\<open>Boolean(v)\<close>: false on \<^verbatim>\<open>undefined, null, false, 0, NaN, ""\<close>, true otherwise.\<close>

fun Boolean :: "jsval \<Rightarrow> bool" where
  "Boolean JUndefined = False"
| "Boolean JNull = False"
| "Boolean (JBool b) = b"
| "Boolean (JNum n) = (n \<noteq> 0)"
| "Boolean JNaN = False"
| "Boolean (JStr s) = (s \<noteq> [])"
| "Boolean (JArr vs) = True"
| "Boolean (JObj kvs) = True"

text \<open>\<^verbatim>\<open>typeof v === 'object'\<close> (true of \<^verbatim>\<open>null\<close> as well).\<close>

fun typeof_object :: "jsval \<Rightarrow> bool" where
  "typeof_object JNull = True"
| "typeof_object (JArr vs) = True"
| "typeof_object (JObj kvs) = True"
| "typeof_object v = False"

fun isArray :: "jsval \<Rightarrow> bool" where
  "isArray (JArr vs) = True"
| "isArray v = False"

fun typeof_string :: "jsval \<Rightarrow> bool" where
  "typeof_string (JStr s) = True"
| "typeof_string v = False"

text \<open>Decimal rendering of an array index, the key \<^verbatim>\<open>Object.entries\<close> gives an element.\<close>

fun digit :: "nat \<Rightarrow> char" where
  "digit n = char_of (48 + n)"

fun string_of_nat :: "nat \<Rightarrow> string" where
  "string_of_nat n = (if n < 10 then [digit n] else string_of_nat (n div 10) @ [digit (n mod 10)])"

definition quoted :: "string \<Rightarrow> string" where
  "quoted s = [CHR 0x27] @ s @ [CHR 0x27]"

text \<open>
  \<^verbatim>\<open>JSON.stringify\<close> descends into arrays and objects on the stack of the engine and
  throws a \<^verbatim>\<open>RangeError\<close> when the value is nested deeper than the stack allows.
  \<open>max_depth\<close> is the deepest nesting the engine serialises. The text it returns is
  only handed to the logger and is not kept.
\<close>

fun depth :: "jsval \<Rightarrow> nat"
  and depth_elements :: "jsval list \<Rightarrow> nat"
  and depth_entries :: "(string \<times> jsval) list \<Rightarrow> nat"
where
  "depth (JArr vs) = Suc (depth_elements vs)"
| "depth (JObj kvs) = Suc (depth_entries kvs)"
| "depth v = 0"
| "depth_elements [] = 0"
| "depth_elements (v # vs) = max (depth v) (depth_elements vs)"
| "depth_entries [] = 0"
| "depth_entries ((key, v) # kvs) = max (depth v) (depth_entries kvs)"

definition JSON_stringify :: "nat \<Rightarrow> jsval \<Rightarrow> js_error + unit" where
  "JSON_stringify max_depth v =
     (if max_depth < depth v then Inl (RangeError ''Maximum call stack size exceeded'')
      else Inr ())"

section \<open>Data model\<close>

text \<open>
  An action as the executor reads it: \<open>None\<close> is an absent (\<^verbatim>\<open>undefined\<close>) field;
  \<open>action_type\<close> and \<open>http_method\<close> are the fields \<^verbatim>\<open>type\<close> and \<^verbatim>\<open>method\<close>. The
  payload fields (\<^verbatim>\<open>transform\<close>, \<^verbatim>\<open>includeMetadata\<close>, \<^verbatim>\<open>id\<close>) only shape the request
  body, which \<^verbatim>\<open>prepareWebhookData\<close> builds without ever throwing, and are left out.
\<close>

record action =
  action_type :: "string option"
  url :: "string option"
  http_method :: "string option"
  headers :: "(string \<times> string) list option"
  timeout :: "int option"
  retries :: "int option"

record rule =
  rule_id :: nat
  rule_name :: string
  rule_conditions :: jsval
  rule_actions :: "action list"
  rule_schedule :: "string option"

section \<open>Condition evaluator (server/services/evaluator.js)\<close>

definition validOperators :: "string list" where
  "validOperators =
     [''=='', ''==='', ''!='', ''!=='', ''<'', ''<='', ''>'', ''>='',
      ''and'', ''or'', ''not'', ''in'', ''!in'',
      ''var'', ''missing'', ''missing_some'',
      ''cat'', ''substr'', ''log'', ''log10'',
      ''abs'', ''ceil'', ''floor'', ''round'',
      ''max'', ''min'', ''+'', ''-'', ''*'', ''/'', ''%'',
      ''merge'', ''all'', ''none'', ''some'',
      ''if'', ''?:'', ''map'', ''reduce'', ''filter'']"

definition comparison_ops :: "string list" where
  "comparison_ops = [''=='', ''==='', ''!='', ''!=='', ''<'', ''<='', ''>'', ''>='']"

text \<open>
  \<open>validateOperatorArguments\<close>: the argument value must be an array; the \<^verbatim>\<open>switch\<close>
  then checks the length for the comparison, logical and membership operators and the
  single string argument of \<^verbatim>\<open>var\<close>. Every other operator passes.
\<close>

definition validateOperatorArguments :: "string \<Rightarrow> jsval \<Rightarrow> js_error + unit" where
  "validateOperatorArguments operator args =
     (case args of
        JArr as \<Rightarrow>
          if operator \<in> set comparison_ops then
            (if length as \<noteq> 2
             then Inl (Error (''Comparison operator '' @ quoted operator @ '' requires exactly 2 arguments''))
             else Inr ())
          else if operator = ''and'' \<or> operator = ''or'' then
            (if length as < 2
             then Inl (Error (''Logical operator '' @ quoted operator @ '' requires at least 2 arguments''))
             else Inr ())
          else if operator = ''not'' then
            (if length as \<noteq> 1
             then Inl (Error (''Logical operator '' @ quoted ''not'' @ '' requires exactly 1 argument''))
             else Inr ())
          else if operator = ''var'' then
            (if length as \<noteq> 1 \<or> \<not> typeof_string (hd as)
             then Inl (Error (''Operator '' @ quoted ''var'' @ '' requires exactly 1 string argument''))
             else Inr ())
          else if operator = ''in'' \<or> operator = ''!in'' then
            (if length as \<noteq> 2
             then Inl (Error (''Membership operator '' @ quoted operator @ '' requires exactly 2 arguments''))
             else Inr ())
          else Inr ()
      | _ \<Rightarrow> Inl (Error (''Operator '' @ quoted operator @ '' requires an array of arguments'')))"

text \<open>
  \<open>validateJsonLogicOperators\<close> walks \<^verbatim>\<open>Object.entries(condition)\<close>. A key that is a
  valid operator has its arguments checked and is not descended into; any other key whose
  value is a non-null object is descended into. The first failing entry throws.
  \<open>validate_entries\<close> is the loop over an object's entries, \<open>validate_elements\<close> the same
  loop over an array, whose keys are the indices.
\<close>

fun validateJsonLogicOperators :: "jsval \<Rightarrow> js_error + unit"
  and validate_entries :: "(string \<times> jsval) list \<Rightarrow> js_error + unit"
  and validate_elements :: "nat \<Rightarrow> jsval list \<Rightarrow> js_error + unit"
  and validate_entry :: "string \<Rightarrow> jsval \<Rightarrow> js_error + unit"
where
  "validateJsonLogicOperators (JObj kvs) = validate_entries kvs"
| "validateJsonLogicOperators (JArr vs) = validate_elements 0 vs"
| "validateJsonLogicOperators v = Inr ()"
| "validate_entries [] = Inr ()"
| "validate_entries ((key, v) # rest) =
     (case validate_entry key v of
        Inl e \<Rightarrow> Inl e
      | Inr u \<Rightarrow> validate_entries rest)"
| "validate_elements i [] = Inr ()"
| "validate_elements i (v # rest) =
     (case validate_entry (string_of_nat i) v of
        Inl e \<Rightarrow> Inl e
      | Inr u \<Rightarrow> validate_elements (Suc i) rest)"
| "validate_entry key v =
     (if key \<in> set validOperators then validateOperatorArguments key v
      else if key \<noteq> ''var'' \<and> typeof_object v \<and> v \<noteq> JNull then validateJsonLogicOperators v
      else Inr ())"

text \<open>
  \<open>checkCircularReferences\<close> keeps the set \<^verbatim>\<open>seen\<close> of the objects visited so far and
  throws when it reaches one of them again. The identity of an object of a tree is its
  position, the list of child indices leading to it from the root (innermost first).
  The set is threaded through the traversal, as the shared \<^verbatim>\<open>WeakSet\<close> is.
\<close>

fun checkCircularReferences :: "nat list \<Rightarrow> jsval \<Rightarrow> nat list list \<Rightarrow> js_error + nat list list"
  and check_entries :: "nat list \<Rightarrow> nat \<Rightarrow> (string \<times> jsval) list \<Rightarrow> nat list list \<Rightarrow> js_error + nat list list"
  and check_elements :: "nat list \<Rightarrow> nat \<Rightarrow> jsval list \<Rightarrow> nat list list \<Rightarrow> js_error + nat list list"
where
  "checkCircularReferences p (JObj kvs) seen =
     (if p \<in> set seen then Inl (Error ''Circular reference detected in condition'')
      else check_entries p 0 kvs (p # seen))"
| "checkCircularReferences p (JArr vs) seen =
     (if p \<in> set seen then Inl (Error ''Circular reference detected in condition'')
      else check_elements p 0 vs (p # seen))"
| "checkCircularReferences p v seen = Inr seen"
| "check_entries p i [] seen = Inr seen"
| "check_entries p i ((key, v) # rest) seen =
     (case checkCircularReferences (i # p) v seen of
        Inl e \<Rightarrow> Inl e
      | Inr seen' \<Rightarrow> check_entries p (Suc i) rest seen')"
| "check_elements p i [] seen = Inr seen"
| "check_elements p i (v # rest) seen =
     (case checkCircularReferences (i # p) v seen of
        Inl e \<Rightarrow> Inl e
      | Inr seen' \<Rightarrow> check_elements p (Suc i) rest seen')"

definition validateCondition :: "jsval \<Rightarrow> js_error + unit" where
  "validateCondition condition =
     (if \<not> Boolean condition \<or> \<not> typeof_object condition
      then Inl (Error ''Condition must be a valid JSON object'')
      else case checkCircularReferences [] condition [] of
             Inl e \<Rightarrow> Inl e
           | Inr seen \<Rightarrow> validateJsonLogicOperators condition)"

text \<open>
  \<open>preprocessData\<close>: anything but a non-null object becomes \<^verbatim>\<open>{}\<close>; otherwise the own
  properties are copied (the spread of an array has its indices as keys) and every
  \<^verbatim>\<open>undefined\<close> value is replaced by \<^verbatim>\<open>null\<close>.
\<close>

definition undefined_to_null :: "string \<times> jsval \<Rightarrow> string \<times> jsval" where
  "undefined_to_null kv = (fst kv, if snd kv = JUndefined then JNull else snd kv)"

fun preprocessData :: "jsval \<Rightarrow> jsval" where
  "preprocessData (JObj kvs) = JObj (map undefined_to_null kvs)"
| "preprocessData (JArr vs) =
     JObj (map undefined_to_null (zip (map string_of_nat [0..<length vs]) vs))"
| "preprocessData v = JObj []"

text \<open>
  \<^verbatim>\<open>try { ... } catch (error) { ... }\<close>: the handler runs on the exception of the body.
\<close>

definition try_catch :: "js_error + 'a \<Rightarrow> (js_error \<Rightarrow> js_error + 'a) \<Rightarrow> js_error + 'a" where
  "try_catch body handler = (case body of Inl e \<Rightarrow> handler e | Inr v \<Rightarrow> Inr v)"

text \<open>
  \<open>evaluateRule\<close>. The library function \<^verbatim>\<open>jsonLogic.apply\<close> (json-logic-js) is the
  parameter \<open>jsonLogic_apply\<close>: it returns a value or throws. The body of the \<^verbatim>\<open>try\<close>
  validates, preprocesses, applies, builds the log record, which holds
  \<^verbatim>\<open>JSON.stringify(condition)\<close>, and returns \<^verbatim>\<open>Boolean(result)\<close>. The handler builds
  its own log record, again with \<^verbatim>\<open>JSON.stringify(condition)\<close>, and then returns
  \<^verbatim>\<open>false\<close>; what the handler throws leaves the function.
\<close>

type_synonym json_logic = "jsval \<Rightarrow> jsval \<Rightarrow> js_error + jsval"

definition evaluateRule :: "nat \<Rightarrow> json_logic \<Rightarrow> jsval \<Rightarrow> jsval \<Rightarrow> js_error + bool" where
  "evaluateRule max_depth jsonLogic_apply condition data =
     try_catch
       (case validateCondition condition of
          Inl e \<Rightarrow> Inl e
        | Inr u \<Rightarrow>
            (case jsonLogic_apply condition (preprocessData data) of
               Inl e \<Rightarrow> Inl e
             | Inr result \<Rightarrow>
                 (case JSON_stringify max_depth condition of
                    Inl e \<Rightarrow> Inl e
                  | Inr text \<Rightarrow> Inr (Boolean result))))
       (\<lambda>error.
          case JSON_stringify max_depth condition of
            Inl e \<Rightarrow> Inl e
          | Inr text \<Rightarrow> Inr False)"

record evaluation =
  ruleId :: nat
  ruleName :: string
  matched :: bool
  error :: "string option"
  conditions :: jsval
  actions :: "action list"

text \<open>
  \<open>evaluateRules\<close>: one \<^verbatim>\<open>results.push\<close> per rule, from the \<^verbatim>\<open>try\<close> when
  \<open>evaluateRule\<close> returns and from the \<^verbatim>\<open>catch\<close>, with the \<^verbatim>\<open>error\<close> field, when it
  throws. The log record of this \<^verbatim>\<open>catch\<close> holds no serialised condition.
\<close>

definition evaluate_entry :: "nat \<Rightarrow> json_logic \<Rightarrow> jsval \<Rightarrow> rule \<Rightarrow> evaluation" where
  "evaluate_entry max_depth jsonLogic_apply data r =
     (case evaluateRule max_depth jsonLogic_apply (rule_conditions r) data of
        Inr m \<Rightarrow>
          \<lparr>ruleId = rule_id r, ruleName = rule_name r, matched = m, error = None,
           conditions = rule_conditions r, actions = rule_actions r\<rparr>
      | Inl e \<Rightarrow>
          \<lparr>ruleId = rule_id r, ruleName = rule_name r, matched = False,
           error = Some (message e),
           conditions = rule_conditions r, actions = rule_actions r\<rparr>)"

fun evaluateRules_loop ::
  "nat \<Rightarrow> json_logic \<Rightarrow> jsval \<Rightarrow> rule list \<Rightarrow> evaluation list \<Rightarrow> evaluation list" where
  "evaluateRules_loop max_depth jsonLogic_apply data [] results = results"
| "evaluateRules_loop max_depth jsonLogic_apply data (r # rules) results =
     evaluateRules_loop max_depth jsonLogic_apply data rules
       (results @ [evaluate_entry max_depth jsonLogic_apply data r])"

definition evaluateRules :: "nat \<Rightarrow> json_logic \<Rightarrow> rule list \<Rightarrow> jsval \<Rightarrow> evaluation list" where
  "evaluateRules max_depth jsonLogic_apply rules data =
     evaluateRules_loop max_depth jsonLogic_apply data rules []"

section \<open>Action executor (server/services/executor.js)\<close>

record config =
  webhookTimeoutMs :: int
  webhookMaxRetries :: int

text \<open>
  The HTTP client \<^verbatim>\<open>axios\<close> is a parameter. A call either resolves with a response
  status or rejects with an error, which carries the status of the response in
  \<^verbatim>\<open>error.response\<close> when there was one (axios rejects on a status outside 2xx) and
  nothing for a network error or a timeout. The world counts the calls made so far and
  records the back-off sleeps; the outcome of a call is a function of its number.
\<close>

datatype axios_outcome = Resolved nat | Rejected "nat option" string

type_synonym transport = "nat \<Rightarrow> axios_outcome"

record world =
  requests :: nat
  sleeps :: "int list"

record action_result =
  success :: bool
  result_action :: action
  response_status :: "nat option"
  attempt_number :: "int option"
  result_error :: "string option"

fun string_of_int :: "int \<Rightarrow> string" where
  "string_of_int i = (if i < 0 then ''-'' @ string_of_nat (nat (- i)) else string_of_nat (nat i))"

text \<open>
  The \<^verbatim>\<open>catch\<close> block of the attempt loop computes \<^verbatim>\<open>Date.now() - startTime\<close>. The
  only declaration of \<^verbatim>\<open>startTime\<close> in \<^verbatim>\<open>executeWebhook\<close> is the \<^verbatim>\<open>const\<close> inside
  the \<^verbatim>\<open>try\<close> block, whose scope ends with that block, and neither the function nor
  the module declares the name. Reading it in the \<^verbatim>\<open>catch\<close> block throws.
\<close>

definition catch_startTime :: "js_error + int" where
  "catch_startTime = Inl (ReferenceError ''startTime is not defined'')"

text \<open>\<^verbatim>\<open>Math.min(1000 * Math.pow(2, attempt - 1), 10000)\<close>\<close>

definition backoff_delay :: "int \<Rightarrow> int" where
  "backoff_delay attempt = min (1000 * 2 ^ nat (attempt - 1)) 10000"

text \<open>
  The statement after the loop: \<^verbatim>\<open>throw new Error(`... ${lastError.message}`)\<close>, where
  \<^verbatim>\<open>lastError\<close> is still \<^verbatim>\<open>undefined\<close> when no attempt has failed.
\<close>

definition after_loop :: "int \<Rightarrow> js_error option \<Rightarrow> js_error" where
  "after_loop rt lastError =
     (case lastError of
        None \<Rightarrow> TypeError (''Cannot read properties of undefined (reading '' @ quoted ''message'' @ '')'')
      | Some e \<Rightarrow>
          Error (''Webhook execution failed after '' @ string_of_int rt @ '' attempts: '' @ message e))"

definition client_error_not_429 :: "nat option \<Rightarrow> bool" where
  "client_error_not_429 st = (case st of None \<Rightarrow> False | Some c \<Rightarrow> 400 \<le> c \<and> c < 500 \<and> c \<noteq> 429)"

text \<open>
  The loop \<^verbatim>\<open>for (let attempt = 1; attempt <= retries; attempt++)\<close>. A resolved call
  returns the success result. A rejected call enters the \<^verbatim>\<open>catch\<close> block: it stores
  the error, computes the elapsed time, leaves the loop on a client error other than 429,
  and otherwise sleeps (when an attempt is left) and goes round again.
\<close>

function attempt_loop ::
  "transport \<Rightarrow> action \<Rightarrow> int \<Rightarrow> int \<Rightarrow> js_error option \<Rightarrow> world
     \<Rightarrow> (js_error + action_result) \<times> world"
where
  "attempt_loop net a rt attempt lastError w =
     (if attempt \<le> rt then
        (case net (requests w) of
           Resolved st \<Rightarrow>
             (Inr \<lparr>success = True, result_action = a, response_status = Some st,
                   attempt_number = Some attempt, result_error = None\<rparr>,
              w\<lparr>requests := Suc (requests w)\<rparr>)
         | Rejected st msg \<Rightarrow>
             (case catch_startTime of
                Inl e \<Rightarrow> (Inl e, w\<lparr>requests := Suc (requests w)\<rparr>)
              | Inr startTime \<Rightarrow>
                  if client_error_not_429 st
                  then (Inl (after_loop rt (Some (Error msg))), w\<lparr>requests := Suc (requests w)\<rparr>)
                  else attempt_loop net a rt (attempt + 1) (Some (Error msg))
                         (if attempt < rt
                          then w\<lparr>requests := Suc (requests w),
                                 sleeps := sleeps w @ [backoff_delay attempt]\<rparr>
                          else w\<lparr>requests := Suc (requests w)\<rparr>)))
      else (Inl (after_loop rt lastError), w))"
  by pat_completeness auto
termination
  by (relation "measure (\<lambda>(net, a, rt, attempt, lastError, w). nat (rt + 1 - attempt))") auto

declare attempt_loop.simps [simp del]

text \<open>
  \<open>executeWebhook\<close>: \<^verbatim>\<open>retries\<close> defaults to the configured maximum when the action
  has none; a missing or empty URL throws before any request is made.
\<close>

definition executeWebhook ::
  "config \<Rightarrow> transport \<Rightarrow> action \<Rightarrow> world \<Rightarrow> (js_error + action_result) \<times> world" where
  "executeWebhook cfg net a w =
     (let rt = (case retries a of None \<Rightarrow> webhookMaxRetries cfg | Some r \<Rightarrow> r) in
      if url a = None \<or> url a = Some []
      then (Inl (Error ''Webhook URL is required''), w)
      else attempt_loop net a rt 1 None w)"

text \<open>
  \<open>executeAction\<close> dispatches on the type; its \<^verbatim>\<open>catch\<close> logs and rethrows the error.
\<close>

definition executeAction ::
  "config \<Rightarrow> transport \<Rightarrow> action \<Rightarrow> world \<Rightarrow> (js_error + action_result) \<times> world" where
  "executeAction cfg net a w =
     (if action_type a = Some ''webhook'' then executeWebhook cfg net a w
      else (Inl (Error (''Unsupported action type: '' @
                        (case action_type a of None \<Rightarrow> ''undefined'' | Some t \<Rightarrow> t))), w))"

text \<open>
  \<open>executeActions\<close>: each action runs inside its own \<^verbatim>\<open>try\<close>; the \<^verbatim>\<open>catch\<close> pushes
  \<^verbatim>\<open>{success: false, action, error: error.message}\<close>.
\<close>

definition execute_entry :: "config \<Rightarrow> transport \<Rightarrow> action \<Rightarrow> world \<Rightarrow> action_result \<times> world" where
  "execute_entry cfg net a w =
     (case executeAction cfg net a w of
        (Inr result, w') \<Rightarrow> (result, w')
      | (Inl e, w') \<Rightarrow>
          (\<lparr>success = False, result_action = a, response_status = None,
            attempt_number = None, result_error = Some (message e)\<rparr>, w'))"

fun executeActions_loop ::
  "config \<Rightarrow> transport \<Rightarrow> action list \<Rightarrow> action_result list \<Rightarrow> world
     \<Rightarrow> action_result list \<times> world" where
  "executeActions_loop cfg net [] results w = (results, w)"
| "executeActions_loop cfg net (a # as) results w =
     (case execute_entry cfg net a w of
        (r, w') \<Rightarrow> executeActions_loop cfg net as (results @ [r]) w')"

definition executeActions ::
  "config \<Rightarrow> transport \<Rightarrow> action list \<Rightarrow> world \<Rightarrow> action_result list \<times> world" where
  "executeActions cfg net as w = executeActions_loop cfg net as [] w"

text \<open>
  \<open>validateAction\<close> collects messages and never throws. \<open>isValidUrl\<close>, which tries
  \<^verbatim>\<open>new URL(string)\<close>, is the parameter \<open>url_parses\<close>. \<open>toUpperCase\<close> is given on ASCII
  letters.
\<close>

definition toUpperCase :: "string \<Rightarrow> string" where
  "toUpperCase s =
     map (\<lambda>c. if (97::nat) \<le> of_char c \<and> of_char c \<le> (122::nat)
              then char_of (of_char c - (32::nat)) else c) s"

definition validateAction :: "(string \<Rightarrow> bool) \<Rightarrow> action \<Rightarrow> string list" where
  "validateAction url_parses a =
     (if action_type a = None \<or> action_type a = Some [] then [''Action type is required''] else []) @
     (if action_type a = Some ''webhook'' then
        (if url a = None \<or> url a = Some [] then [''Webhook URL is required'']
         else if \<not> url_parses (the (url a)) then [''Invalid webhook URL''] else []) @
        (case http_method a of
           None \<Rightarrow> []
         | Some m \<Rightarrow>
             if m \<noteq> [] \<and> toUpperCase m \<notin> set [''GET'', ''POST'', ''PUT'', ''PATCH'', ''DELETE'']
             then [''Invalid HTTP method''] else []) @
        (case timeout a of
           None \<Rightarrow> []
         | Some t \<Rightarrow>
             if t \<noteq> 0 \<and> (t < 1000 \<or> t > 30000)
             then [''Timeout must be a number between 1000 and 30000 ms''] else []) @
        (case retries a of
           None \<Rightarrow> []
         | Some r \<Rightarrow>
             if r \<noteq> 0 \<and> (r < 0 \<or> r > 10)
             then [''Retries must be a number between 0 and 10''] else [])
      else [])"

section \<open>Job scheduler (server/services/scheduler.js)\<close>

text \<open>
  The cron library is a parameter: \<open>validate\<close> is \<^verbatim>\<open>cron.validate\<close>, and \<open>nextDate\<close>
  is what \<^verbatim>\<open>job.nextDate()\<close> returns, or throws, for a job created from an expression
  when the clock shows a given time (in milliseconds). \<^verbatim>\<open>cron.schedule\<close> is taken to
  succeed on an expression that \<^verbatim>\<open>cron.validate\<close> has accepted.
\<close>

record cron =
  validate :: "string \<Rightarrow> bool"
  nextDate :: "string \<Rightarrow> nat \<Rightarrow> js_error + nat"

text \<open>
  The library the service loads is node-cron. The task object that its
  \<^verbatim>\<open>cron.schedule\<close> returns offers \<^verbatim>\<open>start\<close> and \<^verbatim>\<open>stop\<close> and has no method
  \<^verbatim>\<open>nextDate\<close>, so the call \<^verbatim>\<open>job.nextDate()\<close> throws a \<^verbatim>\<open>TypeError\<close>. \<open>node_cron\<close>
  is that library, for a given set of accepted expressions.
\<close>

definition node_cron :: "(string \<Rightarrow> bool) \<Rightarrow> cron" where
  "node_cron accepts =
     \<lparr>validate = accepts,
      nextDate = (\<lambda>e t. Inl (TypeError ''job.nextDate is not a function''))\<rparr>"

text \<open>
  A job object, as far as the scheduler sees it: the expression it was created from, the
  rule its callback closes over, and whether its timer is running (\<^verbatim>\<open>start()\<close> sets
  the flag, \<^verbatim>\<open>stop()\<close> clears it). Job objects are mutated through references, so they
  live in a store, \<open>tasks\<close>, and a reference is an index into it. \<open>jobs\<close> is the
  \<^verbatim>\<open>Map\<close> from rule id to job, in insertion order: \<^verbatim>\<open>set\<close> on a present key replaces
  the value in place, on a new key it appends.
\<close>

record task =
  task_expression :: string
  task_rule :: rule
  running :: bool

record scheduler =
  jobs :: "(nat \<times> nat) list"
  tasks :: "task list"
  isRunning :: bool

definition new_scheduler :: scheduler where
  "new_scheduler = \<lparr>jobs = [], tasks = [], isRunning = False\<rparr>"

definition job_stop :: "nat \<Rightarrow> scheduler \<Rightarrow> scheduler" where
  "job_stop h s = s\<lparr>tasks := (tasks s)[h := (tasks s ! h)\<lparr>running := False\<rparr>]\<rparr>"

text \<open>
  \<open>scheduleRule\<close>: a rule without schedule is left alone; an existing job of the rule
  is stopped; then, inside the \<^verbatim>\<open>try\<close>, the expression is validated (an invalid one
  throws), the job is created, started and stored. The \<^verbatim>\<open>catch\<close> logs and returns.
\<close>

definition schedule_body :: "cron \<Rightarrow> rule \<Rightarrow> string \<Rightarrow> scheduler \<Rightarrow> js_error + scheduler" where
  "schedule_body lib r e s =
     (if \<not> validate lib e then Inl (Error (''Invalid cron expression: '' @ e))
      else Inr (s\<lparr>tasks := tasks s @ [\<lparr>task_expression = e, task_rule = r, running = True\<rparr>],
                  jobs := AList.update (rule_id r) (length (tasks s)) (jobs s)\<rparr>))"

definition scheduleRule :: "cron \<Rightarrow> rule \<Rightarrow> scheduler \<Rightarrow> scheduler" where
  "scheduleRule lib r s =
     (case rule_schedule r of
        None \<Rightarrow> s
      | Some e \<Rightarrow>
          if e = [] then s
          else
            (let s1 = (case map_of (jobs s) (rule_id r) of
                         None \<Rightarrow> s
                       | Some h \<Rightarrow> job_stop h s)
             in case schedule_body lib r e s1 of
                  Inl err \<Rightarrow> s1
                | Inr s2 \<Rightarrow> s2))"

definition unscheduleRule :: "nat \<Rightarrow> scheduler \<Rightarrow> scheduler" where
  "unscheduleRule rid s =
     (case map_of (jobs s) rid of
        None \<Rightarrow> s
      | Some h \<Rightarrow> (job_stop h s)\<lparr>jobs := AList.delete rid (jobs s)\<rparr>)"

fun stop_all :: "(nat \<times> nat) list \<Rightarrow> scheduler \<Rightarrow> scheduler" where
  "stop_all [] s = s"
| "stop_all ((rid, h) # rest) s = stop_all rest (job_stop h s)"

definition stop :: "scheduler \<Rightarrow> scheduler" where
  "stop s =
     (if \<not> isRunning s then s
      else (stop_all (jobs s) s)\<lparr>jobs := [], isRunning := False\<rparr>)"

fun loadScheduledRules :: "cron \<Rightarrow> rule list \<Rightarrow> scheduler \<Rightarrow> scheduler" where
  "loadScheduledRules lib [] s = s"
| "loadScheduledRules lib (r # rules) s = loadScheduledRules lib rules (scheduleRule lib r s)"

text \<open>
  \<open>start\<close>, given the configuration flag \<^verbatim>\<open>cronEnabled\<close> and the rules that the rule
  store returns.
\<close>

definition start :: "bool \<Rightarrow> cron \<Rightarrow> rule list \<Rightarrow> scheduler \<Rightarrow> scheduler" where
  "start cronEnabled lib rules s =
     (if isRunning s then s
      else if \<not> cronEnabled then s
      else (loadScheduledRules lib rules s)\<lparr>isRunning := True\<rparr>)"

definition reload :: "bool \<Rightarrow> cron \<Rightarrow> rule list \<Rightarrow> scheduler \<Rightarrow> scheduler" where
  "reload cronEnabled lib rules s = start cronEnabled lib rules (stop s)"

definition updateScheduledRule :: "cron \<Rightarrow> rule \<Rightarrow> scheduler \<Rightarrow> scheduler" where
  "updateScheduledRule lib r s =
     (if rule_schedule r \<noteq> None \<and> rule_schedule r \<noteq> Some []
      then scheduleRule lib r s
      else unscheduleRule (rule_id r) s)"

record job_status =
  status_ruleId :: nat
  status_running :: bool
  status_nextDate :: nat

text \<open>
  \<open>getJobsStatus\<close> walks the entries of the map and pushes one status per entry; a
  throwing \<^verbatim>\<open>job.nextDate()\<close> is not caught. \<open>now\<close> is the time on the clock.
\<close>

fun getJobsStatus_loop ::
  "cron \<Rightarrow> nat \<Rightarrow> task list \<Rightarrow> (nat \<times> nat) list \<Rightarrow> job_status list \<Rightarrow> js_error + job_status list" where
  "getJobsStatus_loop lib now ts [] status = Inr status"
| "getJobsStatus_loop lib now ts ((rid, h) # rest) status =
     (case nextDate lib (task_expression (ts ! h)) now of
        Inl e \<Rightarrow> Inl e
      | Inr d \<Rightarrow>
          getJobsStatus_loop lib now ts rest
            (status @ [\<lparr>status_ruleId = rid, status_running = running (ts ! h), status_nextDate = d\<rparr>]))"

definition getJobsStatus :: "cron \<Rightarrow> nat \<Rightarrow> scheduler \<Rightarrow> js_error + job_status list" where
  "getJobsStatus lib now s = getJobsStatus_loop lib now (tasks s) (jobs s) []"

record cron_test =
  valid :: bool
  nextExecutions :: "nat list option"
  test_error :: "string option"

text \<open>
  \<open>testCronExpression\<close>. The loop calls \<^verbatim>\<open>job.nextDate()\<close> five times on the one job
  it has created and not started; \<open>clock i\<close> is the time on the clock at call \<open>i\<close>. The
  timestamps are kept as numbers. Whatever is thrown inside the \<^verbatim>\<open>try\<close> comes back as
  \<^verbatim>\<open>{valid: false, error}\<close>.
\<close>

fun nextDates_loop :: "cron \<Rightarrow> (nat \<Rightarrow> nat) \<Rightarrow> string \<Rightarrow> nat \<Rightarrow> nat \<Rightarrow> nat list \<Rightarrow> js_error + nat list" where
  "nextDates_loop lib clock e i 0 nextDates = Inr nextDates"
| "nextDates_loop lib clock e i (Suc n) nextDates =
     (case nextDate lib e (clock i) of
        Inl err \<Rightarrow> Inl err
      | Inr d \<Rightarrow> nextDates_loop lib clock e (Suc i) n (nextDates @ [d]))"

definition testCronExpression :: "cron \<Rightarrow> (nat \<Rightarrow> nat) \<Rightarrow> string \<Rightarrow> cron_test" where
  "testCronExpression lib clock expression =
     (if \<not> validate lib expression
      then \<lparr>valid = False, nextExecutions = None,
            test_error = Some ''Invalid cron expression format''\<rparr>
      else case nextDates_loop lib clock expression 0 5 [] of
             Inl err \<Rightarrow> \<lparr>valid = False, nextExecutions = None, test_error = Some (message err)\<rparr>
           | Inr nextDates \<Rightarrow> \<lparr>valid = True, nextExecutions = Some nextDates, test_error = None\<rparr>)"

section \<open>The invariant of the job table\<close>

text \<open>
  What the constructor establishes and every operation of the scheduler keeps: the keys
  of the map are distinct; the job stored under a rule id exists, was created for a rule
  of that id and from an expression that passed \<^verbatim>\<open>cron.validate\<close>; and every job
  whose timer is running is the one stored under the id of its rule.
\<close>

definition jobs_inv :: "cron \<Rightarrow> scheduler \<Rightarrow> bool" where
  "jobs_inv lib s \<longleftrightarrow>
     distinct (map fst (jobs s)) \<and>
     (\<forall>rid h. map_of (jobs s) rid = Some h \<longrightarrow>
        h < length (tasks s) \<and> rule_id (task_rule (tasks s ! h)) = rid \<and>
        validate lib (task_expression (tasks s ! h))) \<and>
     (\<forall>h < length (tasks s). running (tasks s ! h) \<longrightarrow>
        map_of (jobs s) (rule_id (task_rule (tasks s ! h))) = Some h)"

text \<open>The status entry \<open>getJobsStatus\<close> pushes for one entry of the map.\<close>

definition status_of :: "cron \<Rightarrow> nat \<Rightarrow> task list \<Rightarrow> nat \<times> nat \<Rightarrow> job_status" where
  "status_of lib now ts p =
     \<lparr>status_ruleId = fst p, status_running = running (ts ! snd p),
      status_nextDate = (case nextDate lib (task_expression (ts ! snd p)) now of Inl e \<Rightarrow> 0 | Inr d \<Rightarrow> d)\<rparr>"

section \<open>Concrete inputs\<close>



text \<open>Arrays nested in one another: \<^verbatim>\<open>[]\<close>, \<^verbatim>\<open>[[]]\<close>, \<^verbatim>\<open>[[[]]]\<close> and so on.\<close>

fun nested :: "nat \<Rightarrow> jsval" where
  "nested 0 = JArr []"
| "nested (Suc n) = JArr [nested n]"

text \<open>The condition \<^verbatim>\<open>{"and": [{"==": [1]}, true]}\<close>.\<close>

definition nested_violation :: jsval where
  "nested_violation = JObj [(''and'', JArr [JObj [(''=='', JArr [JNum 1])], JBool True])]"

text \<open>
  A webhook action with a given \<^verbatim>\<open>retries\<close> field, an action of an unsupported type,
  the default configuration, the initial world, and three targets: one that always
  answers 429, one that answers 500 three times and then 200, one that always answers 200.
\<close>

definition webhook_action :: "int option \<Rightarrow> action" where
  "webhook_action r =
     \<lparr>action_type = Some ''webhook'', url = Some ''http://target'', http_method = None,
      headers = None, timeout = None, retries = r\<rparr>"


definition default_config :: config where
  "default_config = \<lparr>webhookTimeoutMs = 10000, webhookMaxRetries = 3\<rparr>"

definition world0 :: world where
  "world0 = \<lparr>requests = 0, sleeps = []\<rparr>"

definition always_429 :: transport where
  "always_429 i = Rejected (Some 429) ''Request failed with status code 429''"

definition three_500_then_200 :: transport where
  "three_500_then_200 i =
     (if i < 3 then Rejected (Some 500) ''Request failed with status code 500'' else Resolved 200)"

definition always_200 :: transport where
  "always_200 i = Resolved 200"

text \<open>
  A cron library that accepts the expression \<^verbatim>\<open>0 */5 * * * *\<close> only and whose next
  date is the next multiple of five minutes after the time on the clock; a rule with id 7
  and a given schedule.
\<close>

definition every_five :: string where
  "every_five = ''0 */5 * * * *''"

definition five_minute_cron :: cron where
  "five_minute_cron =
     \<lparr>validate = (\<lambda>e. e = every_five),
      nextDate = (\<lambda>e t. Inr ((t div 300000 + 1) * 300000))\<rparr>"

definition scheduled_rule :: "string \<Rightarrow> rule" where
  "scheduled_rule e =
     \<lparr>rule_id = 7, rule_name = ''r'', rule_conditions = JObj [], rule_actions = [],
      rule_schedule = Some e\<rparr>"

section \<open>Properties of the evaluator\<close>

lemma evaluateRule_cases:
  "evaluateRule max_depth jsonLogic_apply condition data =
     (case JSON_stringify max_depth condition of
        Inl e \<Rightarrow> Inl e
      | Inr text \<Rightarrow>
          Inr (case validateCondition condition of
                 Inl e \<Rightarrow> False
               | Inr u \<Rightarrow>
                   (case jsonLogic_apply condition (preprocessData data) of
                      Inl e \<Rightarrow> False
                    | Inr result \<Rightarrow> Boolean result)))"
  by (simp add: evaluateRule_def try_catch_def split: sum.splits)




lemma depth_nested: "depth (nested n) = Suc n"
  by (induction n) simp_all

text \<open>
  Where the condition can be serialised, \<open>evaluateRule\<close> returns a boolean, and the
  boolean is \<^verbatim>\<open>false\<close> when validation or \<^verbatim>\<open>jsonLogic.apply\<close> throws.
\<close>

lemma evaluateRule_fail_closed_when_serialisable:
  assumes "JSON_stringify max_depth condition = Inr ()"
  shows "\<exists>b. evaluateRule max_depth jsonLogic_apply condition data = Inr b \<and>
       ((\<exists>e. validateCondition condition = Inl e) \<or>
        (\<exists>e. jsonLogic_apply condition (preprocessData data) = Inl e) \<longrightarrow> b = False)"
  using assms by (auto simp: evaluateRule_cases split: sum.splits)

text \<open>
  C1 on the code. Whatever nesting depth \<open>max_depth\<close> the engine serialises, the
  condition made of \<open>max_depth + 1\<close> arrays nested in one another makes \<open>evaluateRule\<close>
  throw: \<^verbatim>\<open>JSON.stringify(condition)\<close> throws inside the \<^verbatim>\<open>try\<close>, the handler calls it
  again for its own log record before it reaches \<^verbatim>\<open>return false\<close>, and that
  \<^verbatim>\<open>RangeError\<close> leaves the function. What validation and \<^verbatim>\<open>jsonLogic.apply\<close> do
  with such a condition makes no difference (\<open>evaluateRule_cases\<close>): whether they
  return or throw, control reaches a \<^verbatim>\<open>JSON.stringify(condition)\<close> that throws.
\<close>

theorem evaluateRule_throws_on_deep_condition:
  "evaluateRule max_depth jsonLogic_apply (nested max_depth) data =
     Inl (RangeError ''Maximum call stack size exceeded'')"
  by (simp add: evaluateRule_cases JSON_stringify_def depth_nested)

theorem evaluateRule_throws_on_deep_condition_witness:
  "depth (nested 2) = 3 \<and>
   evaluateRule 2 (\<lambda>c d. Inr (JBool True)) (nested 2) (JObj []) =
     Inl (RangeError ''Maximum call stack size exceeded'')"
  using evaluateRule_throws_on_deep_condition [of 2 "\<lambda>c d. Inr (JBool True)" "JObj []"]
  by (simp add: depth_nested)

lemma evaluateRules_loop_append:
  "evaluateRules_loop max_depth jsonLogic_apply data rules results =
     results @ map (evaluate_entry max_depth jsonLogic_apply data) rules"
  by (induction rules arbitrary: results) auto

lemma evaluateRules_map:
  "evaluateRules max_depth jsonLogic_apply rules data =
     map (evaluate_entry max_depth jsonLogic_apply data) rules"
  by (simp add: evaluateRules_def evaluateRules_loop_append)

lemma evaluate_entry_fields:
  "ruleId (evaluate_entry max_depth jsonLogic_apply data r) = rule_id r"
  "error (evaluate_entry max_depth jsonLogic_apply data r) =
     (case JSON_stringify max_depth (rule_conditions r) of
        Inl e \<Rightarrow> Some (message e)
      | Inr text \<Rightarrow> None)"
  "matched (evaluate_entry max_depth jsonLogic_apply data r) =
     (evaluateRule max_depth jsonLogic_apply (rule_conditions r) data = Inr True)"
  by (auto simp: evaluate_entry_def evaluateRule_cases split: sum.splits)






text \<open>
  The \<^verbatim>\<open>error\<close> field is set exactly when \<open>evaluateRule\<close> throws, which is when the
  condition of the rule cannot be serialised.
\<close>

lemma evaluateRules_error_field:
  "k < length rules \<Longrightarrow>
   error (evaluateRules max_depth jsonLogic_apply rules data ! k) =
     (case JSON_stringify max_depth (rule_conditions (rules ! k)) of
        Inl e \<Rightarrow> Some (message e)
      | Inr text \<Rightarrow> None)"
  by (simp add: evaluateRules_map evaluate_entry_fields)

text \<open>
  An operator entry of the condition object itself is checked: a violation there makes
  validation fail.
\<close>

lemma validate_entries_fails:
  "(key, v) \<in> set kvs \<Longrightarrow> validate_entry key v = Inl e \<Longrightarrow> \<exists>e'. validate_entries kvs = Inl e'"
  by (induction kvs) (auto split: sum.splits)

lemma validate_top_level_violation:
  assumes "(operator, args) \<in> set kvs" "operator \<in> set validOperators"
    "validateOperatorArguments operator args = Inl e"
  shows "\<exists>e'. validateCondition (JObj kvs) = Inl e'"
proof -
  have "validate_entry operator args = Inl e" using assms by simp
  then obtain e' where "validate_entries kvs = Inl e'"
    using validate_entries_fails assms(1) by blast
  then show ?thesis by (auto simp: validateCondition_def split: sum.splits)
qed

text \<open>
  C7 on the code. The condition \<^verbatim>\<open>{"and": [{"==": [1]}, true]}\<close> holds the comparison
  \<^verbatim>\<open>==\<close> with one argument, which \<open>validateOperatorArguments\<close> rejects when asked, inside
  the argument list of \<^verbatim>\<open>and\<close>. The arguments of a valid operator are never descended
  into, so validation passes.
\<close>

theorem validate_nested_violation_passes:
  "(\<exists>e. validateOperatorArguments ''=='' (JArr [JNum 1]) = Inl e) \<and>
   validateCondition nested_violation = Inr ()"
  by (simp add: nested_violation_def validateCondition_def validOperators_def
      validateOperatorArguments_def comparison_ops_def)

theorem validate_nested_violation_passes_witness:
  "Boolean nested_violation \<and> typeof_object nested_violation \<and>
   validateCondition nested_violation = Inr ()"
  using validate_nested_violation_passes by (simp add: nested_violation_def)

section \<open>Properties of the executor\<close>

lemma attempt_loop_resolved:
  "attempt \<le> rt \<Longrightarrow> net (requests w) = Resolved st \<Longrightarrow>
   attempt_loop net a rt attempt lastError w =
     (Inr \<lparr>success = True, result_action = a, response_status = Some st,
           attempt_number = Some attempt, result_error = None\<rparr>,
      w\<lparr>requests := Suc (requests w)\<rparr>)"
  by (subst attempt_loop.simps) simp

lemma attempt_loop_rejected:
  "attempt \<le> rt \<Longrightarrow> net (requests w) = Rejected st msg \<Longrightarrow>
   attempt_loop net a rt attempt lastError w =
     (Inl (ReferenceError ''startTime is not defined''), w\<lparr>requests := Suc (requests w)\<rparr>)"
  by (subst attempt_loop.simps) (simp add: catch_startTime_def)

lemma attempt_loop_exit:
  "\<not> attempt \<le> rt \<Longrightarrow>
   attempt_loop net a rt attempt lastError w = (Inl (after_loop rt lastError), w)"
  by (subst attempt_loop.simps) simp


lemma attempt_loop_requests:
  "requests (snd (attempt_loop net a rt attempt lastError w)) \<le> Suc (requests w)"
  by (cases "attempt \<le> rt"; cases "net (requests w)")
     (auto simp: attempt_loop_resolved attempt_loop_rejected attempt_loop_exit)



lemma execute_entry_failure:
  "fst (executeAction cfg net a w) = Inl e \<Longrightarrow> \<not> success (fst (execute_entry cfg net a w))"
  by (auto simp: execute_entry_def split: prod.splits sum.splits)

lemma executeActions_loop_acc:
  "executeActions_loop cfg net as results w =
     (results @ fst (executeActions_loop cfg net as [] w), snd (executeActions_loop cfg net as [] w))"
proof (induction as arbitrary: results w)
  case Nil
  then show ?case by simp
next
  case (Cons a as)
  obtain r w' where e: "execute_entry cfg net a w = (r, w')" by (cases "execute_entry cfg net a w")
  show ?case
    using Cons.IH [of "results @ [r]" w'] Cons.IH [of "[r]" w'] by (simp add: e)
qed

lemma executeActions_Nil: "executeActions cfg net [] w = ([], w)"
  by (simp add: executeActions_def)

lemma executeActions_Cons:
  "executeActions cfg net (a # as) w =
     (fst (execute_entry cfg net a w) # fst (executeActions cfg net as (snd (execute_entry cfg net a w))),
      snd (executeActions cfg net as (snd (execute_entry cfg net a w))))"
  unfolding executeActions_def
  by (cases "execute_entry cfg net a w") (simp add: executeActions_loop_acc [of _ _ _ "[_]"])


lemma executeActions_nth:
  "i < length as \<Longrightarrow>
   fst (executeActions cfg net as w) ! i =
     fst (execute_entry cfg net (as ! i) (snd (executeActions cfg net (take i as) w)))"
proof (induction as arbitrary: w i)
  case Nil
  then show ?case by simp
next
  case (Cons a as)
  show ?case
  proof (cases i)
    case 0
    then show ?thesis by (simp add: executeActions_Cons executeActions_Nil)
  next
    case (Suc j)
    with Cons.prems have "j < length as" by simp
    from Cons.IH [OF this] Suc show ?thesis by (simp add: executeActions_Cons)
  qed
qed




text \<open>
  C3 on the code. With three attempts configured and a target that answers 429 every
  time, \<open>executeWebhook\<close> issues one request and throws the \<^verbatim>\<open>ReferenceError\<close> of its
  \<^verbatim>\<open>catch\<close> block: the 429 is not retried.
\<close>

theorem executeWebhook_429_not_retried:
  "executeWebhook default_config always_429 (webhook_action (Some 3)) world0 =
     (Inl (ReferenceError ''startTime is not defined''), \<lparr>requests = 1, sleeps = []\<rparr>)"
  by (simp add: executeWebhook_def webhook_action_def always_429_def world0_def attempt_loop_rejected)

text \<open>
  C5, as stated, fails: with three attempts configured and a target answering 500, 500,
  500, 200, the result is an error after one request.
\<close>

theorem executeWebhook_500_counterexample:
  "executeWebhook default_config three_500_then_200 (webhook_action (Some 3)) world0 =
     (Inl (ReferenceError ''startTime is not defined''), \<lparr>requests = 1, sleeps = []\<rparr>)"
  by (simp add: executeWebhook_def webhook_action_def three_500_then_200_def world0_def attempt_loop_rejected)

text \<open>
  C5, amended. With a 3-retry configuration (\<^verbatim>\<open>retries: 3\<close>, or no \<^verbatim>\<open>retries\<close> and a
  configured maximum of 3) and a target answering 500 to the next three requests,
  \<open>executeWebhook\<close> ends in failure after at most three requests: the request that
  would be answered 200 is never made.
\<close>

theorem executeWebhook_three_500_fails:
  assumes "retries a = Some 3 \<or> (retries a = None \<and> webhookMaxRetries cfg = 3)"
    and "\<forall>i<3. \<exists>msg. net (requests w + i) = Rejected (Some 500) msg"
  shows "(\<exists>e. fst (executeWebhook cfg net a w) = Inl e) \<and>
         requests (snd (executeWebhook cfg net a w)) \<le> requests w + 3"
proof -
  from assms(2) obtain msg where "net (requests w) = Rejected (Some 500) msg"
    by (metis add.right_neutral zero_less_numeral)
  then have "\<And>rt. 1 \<le> rt \<Longrightarrow> attempt_loop net a rt 1 None w =
      (Inl (ReferenceError ''startTime is not defined''), w\<lparr>requests := Suc (requests w)\<rparr>)"
    by (simp add: attempt_loop_rejected)
  with assms(1) show ?thesis
    by (auto simp: executeWebhook_def)
qed

theorem executeWebhook_three_500_fails_witness:
  "retries (webhook_action (Some 3)) = Some 3 \<and>
   three_500_then_200 0 = Rejected (Some 500) ''Request failed with status code 500'' \<and>
   (\<exists>e. fst (executeWebhook default_config three_500_then_200 (webhook_action (Some 3)) world0) = Inl e) \<and>
   requests (snd (executeWebhook default_config three_500_then_200 (webhook_action (Some 3)) world0)) \<le> 3"
proof -
  have r: "retries (webhook_action (Some 3)) = Some 3" by (simp add: webhook_action_def)
  have n: "\<forall>i<3. \<exists>msg. three_500_then_200 (requests world0 + i) = Rejected (Some 500) msg"
    by (simp add: three_500_then_200_def world0_def)
  from executeWebhook_three_500_fails
         [of "webhook_action (Some 3)" default_config three_500_then_200 world0] r n
  have "(\<exists>e. fst (executeWebhook default_config three_500_then_200 (webhook_action (Some 3)) world0) = Inl e) \<and>
    requests (snd (executeWebhook default_config three_500_then_200 (webhook_action (Some 3)) world0))
      \<le> requests world0 + 3"
    by blast
  with r show ?thesis by (simp add: world0_def three_500_then_200_def)
qed

lemma executeActions_append:
  "executeActions cfg net (as @ bs) w =
     (fst (executeActions cfg net as w) @ fst (executeActions cfg net bs (snd (executeActions cfg net as w))),
      snd (executeActions cfg net bs (snd (executeActions cfg net as w))))"
  by (induction as arbitrary: w) (simp_all add: executeActions_Nil executeActions_Cons)

lemma executeWebhook_zero_retries:
  assumes "retries a = Some 0"
  shows "snd (executeWebhook cfg net a w) = w \<and> (\<exists>e. fst (executeWebhook cfg net a w) = Inl e)"
  using assms by (simp add: executeWebhook_def attempt_loop_exit)

text \<open>
  C9. For a webhook action with \<^verbatim>\<open>retries: 0\<close>, \<open>executeWebhook\<close> leaves the world as
  it was (no request, no sleep) and throws; wherever the action stands in the list given
  to \<open>executeActions\<close>, its result has \<^verbatim>\<open>success: false\<close> and the request count is the
  same before and after it; and \<open>validateAction\<close> does not report its \<^verbatim>\<open>retries\<close>.
\<close>

theorem zero_retries_no_request:
  assumes "action_type a = Some ''webhook''" and "retries a = Some 0"
  shows "snd (executeWebhook cfg net a w) = w \<and>
         (\<exists>e. fst (executeWebhook cfg net a w) = Inl e) \<and>
         (\<forall>as i. i < length as \<and> as ! i = a \<longrightarrow>
            \<not> success (fst (executeActions cfg net as w) ! i) \<and>
            requests (snd (executeActions cfg net (take (Suc i) as) w)) =
              requests (snd (executeActions cfg net (take i as) w))) \<and>
         ''Retries must be a number between 0 and 10'' \<notin> set (validateAction url_parses a)"
proof (intro conjI allI impI)
  show "snd (executeWebhook cfg net a w) = w"
    using executeWebhook_zero_retries [OF assms(2)] by blast
  show "\<exists>e. fst (executeWebhook cfg net a w) = Inl e"
    using executeWebhook_zero_retries [OF assms(2)] by blast
  show "''Retries must be a number between 0 and 10'' \<notin> set (validateAction url_parses a)"
    using assms by (simp add: validateAction_def split: option.splits)
next
  fix as i assume h: "i < length as \<and> as ! i = a"
  let ?w = "snd (executeActions cfg net (take i as) w)"
  have act: "executeAction cfg net a ?w = executeWebhook cfg net a ?w"
    using assms(1) by (simp add: executeAction_def)
  have fail: "\<exists>e. fst (executeAction cfg net a ?w) = Inl e"
    and same: "snd (executeAction cfg net a ?w) = ?w"
    using executeWebhook_zero_retries [OF assms(2), of cfg net ?w] by (simp_all add: act)
  from fail obtain e where "fst (executeAction cfg net (as ! i) ?w) = Inl e" using h by auto
  then show "\<not> success (fst (executeActions cfg net as w) ! i)"
    using h execute_entry_failure by (simp add: executeActions_nth)
  have "snd (execute_entry cfg net a ?w) = ?w"
    using same by (auto simp: execute_entry_def split: prod.splits sum.splits)
  moreover have "take (Suc i) as = take i as @ [a]"
    using h by (simp add: take_Suc_conv_app_nth)
  ultimately show "requests (snd (executeActions cfg net (take (Suc i) as) w)) = requests ?w"
    by (simp add: executeActions_append executeActions_Cons executeActions_Nil)
qed

theorem zero_retries_no_request_witness:
  "action_type (webhook_action (Some 0)) = Some ''webhook'' \<and>
   retries (webhook_action (Some 0)) = Some 0 \<and>
   executeWebhook default_config always_200 (webhook_action (Some 0)) world0 =
     (Inl (TypeError (''Cannot read properties of undefined (reading '' @ quoted ''message'' @ '')'')), world0) \<and>
   \<not> success (fst (executeActions default_config always_200 [webhook_action (Some 0)] world0) ! 0)"
proof -
  let ?a = "webhook_action (Some 0)"
  have t: "action_type ?a = Some ''webhook''" and r: "retries ?a = Some 0"
    by (simp_all add: webhook_action_def)
  have i: "(0::nat) < length [?a] \<and> [?a] ! 0 = ?a" by simp
  from zero_retries_no_request [OF t r, of default_config always_200 world0] i
  have f: "\<not> success (fst (executeActions default_config always_200 [?a] world0) ! 0)" by blast
  have e: "executeWebhook default_config always_200 ?a world0 =
     (Inl (TypeError (''Cannot read properties of undefined (reading '' @ quoted ''message'' @ '')'')), world0)"
    by (simp add: executeWebhook_def webhook_action_def attempt_loop_exit after_loop_def)
  from t r e f show ?thesis by blast
qed

section \<open>Properties of the scheduler\<close>

text \<open>The invariant holds of a new scheduler and is kept by every operation.\<close>

lemma jobs_inv_new: "jobs_inv lib new_scheduler"
  by (simp add: jobs_inv_def new_scheduler_def)

lemma job_stop_simps [simp]:
  "jobs (job_stop h s) = jobs s"
  "isRunning (job_stop h s) = isRunning s"
  "length (tasks (job_stop h s)) = length (tasks s)"
  by (simp_all add: job_stop_def)

lemma job_stop_nth [simp]:
  "k < length (tasks s) \<Longrightarrow> task_rule (tasks (job_stop h s) ! k) = task_rule (tasks s ! k)"
  "k < length (tasks s) \<Longrightarrow> task_expression (tasks (job_stop h s) ! k) = task_expression (tasks s ! k)"
  "k < length (tasks s) \<Longrightarrow> running (tasks (job_stop h s) ! k) = (running (tasks s ! k) \<and> k \<noteq> h)"
  by (cases "h = k"; simp add: job_stop_def)+

lemma jobs_inv_job_stop: "jobs_inv lib s \<Longrightarrow> jobs_inv lib (job_stop h s)"
  by (auto simp: jobs_inv_def)

lemma jobs_inv_schedule_body:
  assumes "jobs_inv lib s" and "schedule_body lib r e s = Inr s'"
    and "\<forall>h. map_of (jobs s) (rule_id r) = Some h \<longrightarrow> \<not> running (tasks s ! h)"
  shows "jobs_inv lib s'"
proof -
  from assms(2) have v: "validate lib e"
    and s': "s' = s\<lparr>tasks := tasks s @ [\<lparr>task_expression = e, task_rule = r, running = True\<rparr>],
                  jobs := AList.update (rule_id r) (length (tasks s)) (jobs s)\<rparr>"
    by (auto simp: schedule_body_def split: if_splits)
  from assms(1) have d: "distinct (map fst (jobs s))"
    and t: "\<And>rid h. map_of (jobs s) rid = Some h \<Longrightarrow>
        h < length (tasks s) \<and> rule_id (task_rule (tasks s ! h)) = rid \<and>
        validate lib (task_expression (tasks s ! h))"
    and u: "\<And>h. h < length (tasks s) \<Longrightarrow> running (tasks s ! h) \<Longrightarrow>
        map_of (jobs s) (rule_id (task_rule (tasks s ! h))) = Some h"
    by (auto simp: jobs_inv_def)
  have 1: "distinct (map fst (jobs s'))" using d by (simp add: s' distinct_update)
  have 2: "h < length (tasks s') \<and> rule_id (task_rule (tasks s' ! h)) = rid \<and>
        validate lib (task_expression (tasks s' ! h))" if "map_of (jobs s') rid = Some h" for rid h
  proof (cases "rid = rule_id r")
    case True
    with that have "h = length (tasks s)" by (simp add: s' update_conv')
    then show ?thesis using True v by (simp add: s')
  next
    case False
    with that have "map_of (jobs s) rid = Some h" by (simp add: s' update_conv')
    from t [OF this] show ?thesis by (simp add: s' nth_append)
  qed
  have 3: "map_of (jobs s') (rule_id (task_rule (tasks s' ! h))) = Some h"
    if "h < length (tasks s')" "running (tasks s' ! h)" for h
  proof (cases "h < length (tasks s)")
    case True
    with that have run: "running (tasks s ! h)" by (simp add: s' nth_append)
    from u [OF True run] have m: "map_of (jobs s) (rule_id (task_rule (tasks s ! h))) = Some h" .
    have "rule_id (task_rule (tasks s ! h)) \<noteq> rule_id r"
      using assms(3) m run by auto
    then show ?thesis using m True by (simp add: s' nth_append update_conv')
  next
    case False
    with that have "h = length (tasks s)" by (simp add: s')
    then show ?thesis by (simp add: s' update_conv')
  qed
  from 1 2 3 show ?thesis unfolding jobs_inv_def by blast
qed

lemma jobs_inv_scheduleRule: "jobs_inv lib s \<Longrightarrow> jobs_inv lib (scheduleRule lib r s)"
proof -
  assume inv: "jobs_inv lib s"
  show ?thesis
  proof (cases "rule_schedule r")
    case None
    then show ?thesis using inv by (simp add: scheduleRule_def)
  next
    case (Some e)
    define s1 where "s1 = (case map_of (jobs s) (rule_id r) of None \<Rightarrow> s | Some h \<Rightarrow> job_stop h s)"
    have inv1: "jobs_inv lib s1"
      using inv by (simp add: s1_def jobs_inv_job_stop split: option.splits)
    have stopped: "\<forall>h. map_of (jobs s1) (rule_id r) = Some h \<longrightarrow> \<not> running (tasks s1 ! h)"
    proof (intro allI impI)
      fix h assume m: "map_of (jobs s1) (rule_id r) = Some h"
      then have m0: "map_of (jobs s) (rule_id r) = Some h"
        by (simp add: s1_def split: option.splits)
      then have "h < length (tasks s)" using inv unfolding jobs_inv_def by blast
      then show "\<not> running (tasks s1 ! h)" by (simp add: s1_def m0)
    qed
    show ?thesis
    proof (cases "e = []")
      case True
      then show ?thesis using inv Some by (simp add: scheduleRule_def)
    next
      case False
      then have "scheduleRule lib r s = (case schedule_body lib r e s1 of Inl err \<Rightarrow> s1 | Inr s2 \<Rightarrow> s2)"
        using Some unfolding s1_def by (simp add: scheduleRule_def Let_def)
      then show ?thesis
        using inv1 jobs_inv_schedule_body [OF inv1 _ stopped]
        by (auto split: sum.splits)
    qed
  qed
qed

lemma scheduleRule_valid:
  assumes "rule_schedule r = Some e" "e \<noteq> []" "validate lib e"
  shows "scheduleRule lib r s =
     (let s1 = (case map_of (jobs s) (rule_id r) of None \<Rightarrow> s | Some h \<Rightarrow> job_stop h s)
      in s1\<lparr>tasks := tasks s1 @ [\<lparr>task_expression = e, task_rule = r, running = True\<rparr>],
            jobs := AList.update (rule_id r) (length (tasks s1)) (jobs s1)\<rparr>)"
  using assms by (simp add: scheduleRule_def schedule_body_def Let_def)

lemma scheduleRule_invalid:
  assumes "rule_schedule r = Some e" "e \<noteq> []" "\<not> validate lib e"
  shows "scheduleRule lib r s =
     (case map_of (jobs s) (rule_id r) of None \<Rightarrow> s | Some h \<Rightarrow> job_stop h s)"
  using assms by (simp add: scheduleRule_def schedule_body_def Let_def)

lemma filter_key_distinct:
  "distinct (map fst al) \<Longrightarrow> map_of al k = Some v \<Longrightarrow> filter (\<lambda>p. fst p = k) al = [(k, v)]"
proof (induction al)
  case Nil
  then show ?case by simp
next
  case (Cons p al)
  show ?case
  proof (cases "fst p = k")
    case True
    with Cons.prems have "k \<notin> fst ` set al" and "p = (k, v)" by (auto simp: prod_eq_iff)
    then have "filter (\<lambda>p. fst p = k) al = []" by (auto simp: filter_empty_conv)
    with True \<open>p = (k, v)\<close> show ?thesis by simp
  next
    case False
    with Cons show ?thesis by (cases p) auto
  qed
qed

lemma getJobsStatus_loop_ok:
  "(\<And>rid h. (rid, h) \<in> set js \<Longrightarrow> \<exists>d. nextDate lib (task_expression (ts ! h)) now = Inr d) \<Longrightarrow>
   getJobsStatus_loop lib now ts js status = Inr (status @ map (status_of lib now ts) js)"
proof (induction js arbitrary: status)
  case Nil
  then show ?case by simp
next
  case (Cons p js)
  obtain rid h where p: "p = (rid, h)" by (cases p)
  from Cons.prems [of rid h] obtain d where d: "nextDate lib (task_expression (ts ! h)) now = Inr d"
    by (auto simp: p)
  have "getJobsStatus_loop lib now ts js (status @ [status_of lib now ts p]) =
     Inr ((status @ [status_of lib now ts p]) @ map (status_of lib now ts) js)"
    by (rule Cons.IH) (use Cons.prems in auto)
  then show ?case by (simp add: p d status_of_def)
qed

lemma getJobsStatus_ok:
  assumes "jobs_inv lib s" and "\<forall>e t. validate lib e \<longrightarrow> (\<exists>d. nextDate lib e t = Inr d)"
  shows "getJobsStatus lib now s = Inr (map (status_of lib now (tasks s)) (jobs s))"
proof -
  have "\<exists>d. nextDate lib (task_expression (tasks s ! h)) now = Inr d" if "(rid, h) \<in> set (jobs s)" for rid h
  proof -
    from assms(1) that have "map_of (jobs s) rid = Some h" by (simp add: jobs_inv_def)
    with assms(1) have "validate lib (task_expression (tasks s ! h))" unfolding jobs_inv_def by blast
    with assms(2) show ?thesis by blast
  qed
  from getJobsStatus_loop_ok [of "jobs s" lib "tasks s" now "[]", OF this]
  show ?thesis by (simp add: getJobsStatus_def)
qed

lemma status_filter:
  "filter (\<lambda>j. status_ruleId j = rid) (map (status_of lib now ts) js) =
     map (status_of lib now ts) (filter (\<lambda>p. fst p = rid) js)"
  by (induction js) (auto simp: status_of_def)

lemma jobs_inv_unscheduleRule: "jobs_inv lib s \<Longrightarrow> jobs_inv lib (unscheduleRule rid s)"
proof -
  assume inv: "jobs_inv lib s"
  show ?thesis
  proof (cases "map_of (jobs s) rid")
    case None
    then show ?thesis using inv by (simp add: unscheduleRule_def)
  next
    case (Some h)
    let ?s = "(job_stop h s)\<lparr>jobs := AList.delete rid (jobs s)\<rparr>"
    from inv have d: "distinct (map fst (jobs s))"
      and t: "\<And>rid h. map_of (jobs s) rid = Some h \<Longrightarrow>
          h < length (tasks s) \<and> rule_id (task_rule (tasks s ! h)) = rid \<and>
          validate lib (task_expression (tasks s ! h))"
      and u: "\<And>h. h < length (tasks s) \<Longrightarrow> running (tasks s ! h) \<Longrightarrow>
          map_of (jobs s) (rule_id (task_rule (tasks s ! h))) = Some h"
      by (auto simp: jobs_inv_def)
    have 1: "distinct (map fst (jobs ?s))" using d by (simp add: distinct_delete)
    have 2: "k < length (tasks ?s) \<and> rule_id (task_rule (tasks ?s ! k)) = r \<and>
          validate lib (task_expression (tasks ?s ! k))" if "map_of (jobs ?s) r = Some k" for r k
    proof -
      from that have "map_of (jobs s) r = Some k" by (auto simp: delete_conv' split: if_splits)
      from t [OF this] show ?thesis by simp
    qed
    have 3: "map_of (jobs ?s) (rule_id (task_rule (tasks ?s ! k))) = Some k"
      if "k < length (tasks ?s)" "running (tasks ?s ! k)" for k
    proof -
      from that have k: "k < length (tasks s)" and run: "running (tasks s ! k)" and ne: "k \<noteq> h"
        by simp_all
      from u [OF k run] have m: "map_of (jobs s) (rule_id (task_rule (tasks s ! k))) = Some k" .
      with Some ne have "rule_id (task_rule (tasks s ! k)) \<noteq> rid" by auto
      with m k show ?thesis by (simp add: delete_conv')
    qed
    have "jobs_inv lib ?s" unfolding jobs_inv_def using 1 2 3 by blast
    then show ?thesis using Some by (simp add: unscheduleRule_def)
  qed
qed

lemma stop_all_simps [simp]:
  "jobs (stop_all js s) = jobs s"
  "isRunning (stop_all js s) = isRunning s"
  "length (tasks (stop_all js s)) = length (tasks s)"
  by (induction js s rule: stop_all.induct) simp_all

lemma stop_all_running:
  "k < length (tasks s) \<Longrightarrow>
   running (tasks (stop_all js s) ! k) = (running (tasks s ! k) \<and> k \<notin> snd ` set js)"
  by (induction js s rule: stop_all.induct) auto

lemma jobs_inv_stop: "jobs_inv lib s \<Longrightarrow> jobs_inv lib (stop s)"
proof -
  assume inv: "jobs_inv lib s"
  have "\<not> running (tasks (stop_all (jobs s) s) ! k)" if k: "k < length (tasks s)" for k
  proof
    assume "running (tasks (stop_all (jobs s) s) ! k)"
    with k have run: "running (tasks s ! k)" and out: "k \<notin> snd ` set (jobs s)"
      by (simp_all add: stop_all_running)
    from inv k run have "map_of (jobs s) (rule_id (task_rule (tasks s ! k))) = Some k"
      unfolding jobs_inv_def by blast
    then have "(rule_id (task_rule (tasks s ! k)), k) \<in> set (jobs s)" by (rule map_of_SomeD)
    with out show False by force
  qed
  then have "jobs_inv lib ((stop_all (jobs s) s)\<lparr>jobs := [], isRunning := False\<rparr>)"
    by (simp add: jobs_inv_def)
  then show ?thesis using inv by (cases "isRunning s") (simp_all add: stop_def)
qed

lemma jobs_inv_loadScheduledRules:
  "jobs_inv lib s \<Longrightarrow> jobs_inv lib (loadScheduledRules lib rules s)"
  by (induction rules arbitrary: s) (simp_all add: jobs_inv_scheduleRule)

lemma jobs_inv_isRunning: "jobs_inv lib (s\<lparr>isRunning := b\<rparr>) = jobs_inv lib s"
  by (simp add: jobs_inv_def)

lemma jobs_inv_start: "jobs_inv lib s \<Longrightarrow> jobs_inv lib (start cronEnabled lib rules s)"
  by (simp add: start_def jobs_inv_isRunning jobs_inv_loadScheduledRules)

lemma jobs_inv_reload: "jobs_inv lib s \<Longrightarrow> jobs_inv lib (reload cronEnabled lib rules s)"
  by (simp add: reload_def jobs_inv_start jobs_inv_stop)

lemma jobs_inv_updateScheduledRule:
  "jobs_inv lib s \<Longrightarrow> jobs_inv lib (updateScheduledRule lib r s)"
  by (simp add: updateScheduledRule_def jobs_inv_scheduleRule jobs_inv_unscheduleRule)

lemma scheduleRule_valid_facts:
  assumes inv: "jobs_inv lib s"
    and r: "rule_schedule r = Some e" "e \<noteq> []" "validate lib e"
  shows "length (tasks (scheduleRule lib r s)) = Suc (length (tasks s))"
    and "jobs (scheduleRule lib r s) = AList.update (rule_id r) (length (tasks s)) (jobs s)"
    and "tasks (scheduleRule lib r s) ! length (tasks s) =
           \<lparr>task_expression = e, task_rule = r, running = True\<rparr>"
    and "\<And>h. map_of (jobs s) (rule_id r) = Some h \<Longrightarrow> \<not> running (tasks (scheduleRule lib r s) ! h)"
proof -
  define s1 where "s1 = (case map_of (jobs s) (rule_id r) of None \<Rightarrow> s | Some h \<Rightarrow> job_stop h s)"
  have eq: "scheduleRule lib r s =
      s1\<lparr>tasks := tasks s1 @ [\<lparr>task_expression = e, task_rule = r, running = True\<rparr>],
         jobs := AList.update (rule_id r) (length (tasks s1)) (jobs s1)\<rparr>"
    unfolding s1_def using scheduleRule_valid [OF r, of s] by (simp add: Let_def)
  have len: "length (tasks s1) = length (tasks s)" and jb: "jobs s1 = jobs s"
    by (simp_all add: s1_def split: option.splits)
  show "length (tasks (scheduleRule lib r s)) = Suc (length (tasks s))"
    by (simp add: eq len)
  show "jobs (scheduleRule lib r s) = AList.update (rule_id r) (length (tasks s)) (jobs s)"
    by (simp add: eq len jb)
  show "tasks (scheduleRule lib r s) ! length (tasks s) =
           \<lparr>task_expression = e, task_rule = r, running = True\<rparr>"
    by (simp add: eq len [symmetric])
  show "\<not> running (tasks (scheduleRule lib r s) ! h)" if m: "map_of (jobs s) (rule_id r) = Some h" for h
  proof -
    from inv m have h: "h < length (tasks s)" unfolding jobs_inv_def by blast
    then have "\<not> running (tasks s1 ! h)" by (simp add: s1_def m)
    with h show ?thesis by (simp add: eq nth_append len)
  qed
qed

lemma node_cron_simps:
  "validate (node_cron accepts) e = accepts e"
  "nextDate (node_cron accepts) e t = Inl (TypeError ''job.nextDate is not a function'')"
  by (simp_all add: node_cron_def)

lemma getJobsStatus_empty: "jobs s = [] \<Longrightarrow> getJobsStatus lib now s = Inr []"
  by (simp add: getJobsStatus_def)

lemma getJobsStatus_node_cron:
  "jobs s \<noteq> [] \<Longrightarrow>
   getJobsStatus (node_cron accepts) now s = Inl (TypeError ''job.nextDate is not a function'')"
proof -
  assume "jobs s \<noteq> []"
  then obtain rid h rest where "jobs s = (rid, h) # rest"
    by (cases "jobs s") auto
  then show ?thesis by (simp add: getJobsStatus_def node_cron_simps)
qed

text \<open>
  The job table after two calls of \<open>scheduleRule\<close> for the same rule id, both with a
  valid expression, for any cron library: the first call stores a running job under the
  id; the second call stops that job and stores a new running job, bound to the second
  rule, under the same id; the keys stay distinct and the table holds exactly one entry
  for the id.
\<close>

lemma scheduleRule_twice_table:
  assumes inv: "jobs_inv lib s"
    and r1: "rule_schedule r1 = Some e1" "e1 \<noteq> []" "validate lib e1"
    and r2: "rule_schedule r2 = Some e2" "e2 \<noteq> []" "validate lib e2"
    and same: "rule_id r2 = rule_id r1"
  shows "map_of (jobs (scheduleRule lib r1 s)) (rule_id r1) = Some (length (tasks s))"
    and "running (tasks (scheduleRule lib r1 s) ! length (tasks s))"
    and "\<not> running (tasks (scheduleRule lib r2 (scheduleRule lib r1 s)) ! length (tasks s))"
    and "map_of (jobs (scheduleRule lib r2 (scheduleRule lib r1 s))) (rule_id r1) =
           Some (Suc (length (tasks s)))"
    and "tasks (scheduleRule lib r2 (scheduleRule lib r1 s)) ! Suc (length (tasks s)) =
           \<lparr>task_expression = e2, task_rule = r2, running = True\<rparr>"
    and "distinct (map fst (jobs (scheduleRule lib r2 (scheduleRule lib r1 s))))"
    and "filter (\<lambda>p. fst p = rule_id r1) (jobs (scheduleRule lib r2 (scheduleRule lib r1 s))) =
           [(rule_id r1, Suc (length (tasks s)))]"
proof -
  let ?s1 = "scheduleRule lib r1 s"
  let ?s2 = "scheduleRule lib r2 ?s1"
  have inv1: "jobs_inv lib ?s1" and inv2: "jobs_inv lib ?s2"
    using inv by (simp_all add: jobs_inv_scheduleRule)
  note f1 = scheduleRule_valid_facts [OF inv r1]
  note f2 = scheduleRule_valid_facts [OF inv1 r2]
  show m1: "map_of (jobs ?s1) (rule_id r1) = Some (length (tasks s))"
    by (simp add: f1(2) update_conv')
  show "running (tasks ?s1 ! length (tasks s))" by (simp add: f1(3))
  show "\<not> running (tasks ?s2 ! length (tasks s))" using f2(4) [of "length (tasks s)"] m1 same by simp
  show m2: "map_of (jobs ?s2) (rule_id r1) = Some (Suc (length (tasks s)))"
    by (simp add: f2(2) update_conv' same f1(1))
  show "tasks ?s2 ! Suc (length (tasks s)) = \<lparr>task_expression = e2, task_rule = r2, running = True\<rparr>"
    using f2(3) by (simp add: f1(1))
  show d: "distinct (map fst (jobs ?s2))" using inv2 by (simp add: jobs_inv_def)
  show "filter (\<lambda>p. fst p = rule_id r1) (jobs ?s2) = [(rule_id r1, Suc (length (tasks s)))]"
    by (rule filter_key_distinct [OF d m2])
qed

text \<open>
  C6 on the code. With node-cron, in a state satisfying the invariant, scheduling two
  rules of the same id one after the other, both with a valid expression: the job of the
  first call is stopped by the second, a new running job bound to the second rule is
  stored under the id, and the table holds exactly one entry for the id. But
  \<open>getJobsStatus\<close> does not report that entry: its loop calls \<^verbatim>\<open>job.nextDate()\<close> on
  the job, which throws, and nothing catches the \<^verbatim>\<open>TypeError\<close>.
\<close>

theorem scheduleRule_twice_status_throws:
  assumes inv: "jobs_inv (node_cron accepts) s"
    and r1: "rule_schedule r1 = Some e1" "e1 \<noteq> []" "accepts e1"
    and r2: "rule_schedule r2 = Some e2" "e2 \<noteq> []" "accepts e2"
    and same: "rule_id r2 = rule_id r1"
  shows "\<not> running (tasks (scheduleRule (node_cron accepts) r2
                              (scheduleRule (node_cron accepts) r1 s)) ! length (tasks s)) \<and>
         tasks (scheduleRule (node_cron accepts) r2
                 (scheduleRule (node_cron accepts) r1 s)) ! Suc (length (tasks s)) =
           \<lparr>task_expression = e2, task_rule = r2, running = True\<rparr> \<and>
         filter (\<lambda>p. fst p = rule_id r1)
           (jobs (scheduleRule (node_cron accepts) r2 (scheduleRule (node_cron accepts) r1 s))) =
           [(rule_id r1, Suc (length (tasks s)))] \<and>
         getJobsStatus (node_cron accepts) now
           (scheduleRule (node_cron accepts) r2 (scheduleRule (node_cron accepts) r1 s)) =
           Inl (TypeError ''job.nextDate is not a function'')"
proof -
  let ?lib = "node_cron accepts"
  let ?s2 = "scheduleRule ?lib r2 (scheduleRule ?lib r1 s)"
  have v1: "validate ?lib e1" and v2: "validate ?lib e2"
    using r1(3) r2(3) by (simp_all add: node_cron_simps)
  note t = scheduleRule_twice_table [OF inv r1(1,2) v1 r2(1,2) v2 same]
  have "jobs ?s2 \<noteq> []" using t(4) by auto
  then have "getJobsStatus ?lib now ?s2 = Inl (TypeError ''job.nextDate is not a function'')"
    by (rule getJobsStatus_node_cron)
  with t(3) t(5) t(7) show ?thesis by simp
qed

text \<open>
  The job table after \<open>scheduleRule\<close> with an expression that fails validation, for a
  rule id that has a job, for any cron library: the call returns with the table as it
  was; the job of the id is stopped, and no job created for a rule of that id is running.
\<close>

lemma scheduleRule_invalid_table:
  assumes inv: "jobs_inv lib s"
    and job: "map_of (jobs s) (rule_id r) = Some h"
    and r: "rule_schedule r = Some e" "e \<noteq> []" "\<not> validate lib e"
  shows "jobs (scheduleRule lib r s) = jobs s"
    and "\<not> running (tasks (scheduleRule lib r s) ! h)"
    and "\<And>k. k < length (tasks (scheduleRule lib r s)) \<Longrightarrow>
           rule_id (task_rule (tasks (scheduleRule lib r s) ! k)) = rule_id r \<Longrightarrow>
           \<not> running (tasks (scheduleRule lib r s) ! k)"
proof -
  let ?s = "scheduleRule lib r s"
  have eq: "?s = job_stop h s" using scheduleRule_invalid [OF r, of s] job by simp
  from inv job have h: "h < length (tasks s)" unfolding jobs_inv_def by blast
  have inv': "jobs_inv lib ?s" using inv by (rule jobs_inv_scheduleRule)
  show 1: "jobs ?s = jobs s" by (simp add: eq)
  show 2: "\<not> running (tasks ?s ! h)" using h by (simp add: eq)
  show "\<not> running (tasks ?s ! k)"
    if "k < length (tasks ?s)" "rule_id (task_rule (tasks ?s ! k)) = rule_id r" for k
  proof
    assume run: "running (tasks ?s ! k)"
    with inv' that have "map_of (jobs ?s) (rule_id r) = Some k" unfolding jobs_inv_def by metis
    with job 1 have "k = h" by simp
    with run 2 show False by simp
  qed
qed

text \<open>
  C10 on the code. With node-cron, in a state satisfying the invariant in which the rule
  id already has a job, \<open>scheduleRule\<close> with an expression that fails validation
  returns (the error is caught) with the job table unchanged and the old job stopped, and
  no job created for a rule of that id is running any more. But \<open>getJobsStatus\<close> does
  not report an entry for the id: it throws the \<^verbatim>\<open>TypeError\<close> of \<^verbatim>\<open>job.nextDate()\<close>.
\<close>

theorem scheduleRule_invalid_status_throws:
  assumes inv: "jobs_inv (node_cron accepts) s"
    and job: "map_of (jobs s) (rule_id r) = Some h"
    and r: "rule_schedule r = Some e" "e \<noteq> []" "\<not> accepts e"
  shows "jobs (scheduleRule (node_cron accepts) r s) = jobs s \<and>
     \<not> running (tasks (scheduleRule (node_cron accepts) r s) ! h) \<and>
     (\<forall>k < length (tasks (scheduleRule (node_cron accepts) r s)).
         rule_id (task_rule (tasks (scheduleRule (node_cron accepts) r s) ! k)) = rule_id r \<longrightarrow>
         \<not> running (tasks (scheduleRule (node_cron accepts) r s) ! k)) \<and>
     getJobsStatus (node_cron accepts) now (scheduleRule (node_cron accepts) r s) =
       Inl (TypeError ''job.nextDate is not a function'')"
proof -
  let ?lib = "node_cron accepts"
  have bad: "\<not> validate ?lib e" using r(3) by (simp add: node_cron_simps)
  note t = scheduleRule_invalid_table [OF inv job r(1,2) bad]
  have "jobs (scheduleRule ?lib r s) \<noteq> []" using t(1) job by auto
  then have "getJobsStatus ?lib now (scheduleRule ?lib r s) =
      Inl (TypeError ''job.nextDate is not a function'')"
    by (rule getJobsStatus_node_cron)
  with t show ?thesis by blast
qed

lemma five_minute_cron_simps:
  "validate five_minute_cron e = (e = every_five)"
  "nextDate five_minute_cron e t = Inr ((t div 300000 + 1) * 300000)"
  by (simp_all add: five_minute_cron_def)

lemma every_five_nonempty: "every_five \<noteq> []"
  by (simp add: every_five_def)

lemma scheduled_rule_simps:
  "rule_id (scheduled_rule e) = 7"
  "rule_schedule (scheduled_rule e) = Some e"
  by (simp_all add: scheduled_rule_def)

theorem scheduleRule_twice_status_throws_witness:
  "jobs_inv (node_cron (\<lambda>e. e = every_five)) new_scheduler \<and>
   rule_schedule (scheduled_rule every_five) = Some every_five \<and>
   jobs (scheduleRule (node_cron (\<lambda>e. e = every_five)) (scheduled_rule every_five)
          (scheduleRule (node_cron (\<lambda>e. e = every_five)) (scheduled_rule every_five)
             new_scheduler)) = [(7, 1)] \<and>
   getJobsStatus (node_cron (\<lambda>e. e = every_five)) 1000
     (scheduleRule (node_cron (\<lambda>e. e = every_five)) (scheduled_rule every_five)
        (scheduleRule (node_cron (\<lambda>e. e = every_five)) (scheduled_rule every_five)
           new_scheduler)) = Inl (TypeError ''job.nextDate is not a function'')"
proof -
  let ?lib = "node_cron (\<lambda>e. e = every_five)"
  let ?r = "scheduled_rule every_five"
  from scheduleRule_twice_status_throws
         [of "\<lambda>e. e = every_five" new_scheduler ?r every_five ?r every_five 1000]
  have "getJobsStatus ?lib 1000 (scheduleRule ?lib ?r (scheduleRule ?lib ?r new_scheduler)) =
      Inl (TypeError ''job.nextDate is not a function'')"
    by (simp add: jobs_inv_new scheduled_rule_simps every_five_nonempty)
  moreover have "jobs (scheduleRule ?lib ?r (scheduleRule ?lib ?r new_scheduler)) = [(7, 1)]"
    by (simp add: scheduleRule_def schedule_body_def node_cron_simps scheduled_rule_simps
        every_five_nonempty new_scheduler_def job_stop_def)
  ultimately show ?thesis
    using jobs_inv_new by (simp add: scheduled_rule_simps)
qed

theorem scheduleRule_invalid_status_throws_witness:
  "jobs_inv (node_cron (\<lambda>e. e = every_five))
     (scheduleRule (node_cron (\<lambda>e. e = every_five)) (scheduled_rule every_five) new_scheduler) \<and>
   map_of (jobs (scheduleRule (node_cron (\<lambda>e. e = every_five)) (scheduled_rule every_five)
                   new_scheduler))
     (rule_id (scheduled_rule ''every day'')) = Some 0 \<and>
   ''every day'' \<noteq> every_five \<and>
   jobs (scheduleRule (node_cron (\<lambda>e. e = every_five)) (scheduled_rule ''every day'')
          (scheduleRule (node_cron (\<lambda>e. e = every_five)) (scheduled_rule every_five)
             new_scheduler)) = [(7, 0)] \<and>
   \<not> running (tasks (scheduleRule (node_cron (\<lambda>e. e = every_five)) (scheduled_rule ''every day'')
          (scheduleRule (node_cron (\<lambda>e. e = every_five)) (scheduled_rule every_five)
             new_scheduler)) ! 0) \<and>
   getJobsStatus (node_cron (\<lambda>e. e = every_five)) 1000
     (scheduleRule (node_cron (\<lambda>e. e = every_five)) (scheduled_rule ''every day'')
        (scheduleRule (node_cron (\<lambda>e. e = every_five)) (scheduled_rule every_five)
           new_scheduler)) = Inl (TypeError ''job.nextDate is not a function'')"
proof -
  let ?lib = "node_cron (\<lambda>e. e = every_five)"
  let ?s = "scheduleRule ?lib (scheduled_rule every_five) new_scheduler"
  let ?r = "scheduled_rule ''every day''"
  have inv: "jobs_inv ?lib ?s" by (simp add: jobs_inv_scheduleRule jobs_inv_new)
  have s: "jobs ?s = [(7, 0)]"
    by (simp add: scheduleRule_def schedule_body_def node_cron_simps scheduled_rule_simps
        every_five_nonempty new_scheduler_def)
  have job: "map_of (jobs ?s) (rule_id ?r) = Some 0" by (simp add: s scheduled_rule_simps)
  have bad: "''every day'' \<noteq> every_five" by (simp add: every_five_def)
  from scheduleRule_invalid_status_throws
         [of "\<lambda>e. e = every_five" ?s ?r 0 "''every day''" 1000] inv job bad
  have "jobs (scheduleRule ?lib ?r ?s) = jobs ?s \<and>
    \<not> running (tasks (scheduleRule ?lib ?r ?s) ! 0) \<and>
    getJobsStatus ?lib 1000 (scheduleRule ?lib ?r ?s) =
      Inl (TypeError ''job.nextDate is not a function'')"
    by (simp add: scheduled_rule_simps)
  with inv job bad s show ?thesis by simp
qed

text \<open>
  \<open>testCronExpression\<close> never throws: it returns a record. An expression that fails
  validation gives \<^verbatim>\<open>{valid: false, error}\<close>; a valid one, with the clock standing
  still during the loop, gives five copies of one date, whatever the library.
\<close>

lemma nextDates_loop_constant_clock:
  "nextDate lib e t = Inr d \<Longrightarrow>
   nextDates_loop lib (\<lambda>i. t) e i n nextDates = Inr (nextDates @ replicate n d)"
  by (induction n arbitrary: i nextDates) (simp_all add: replicate_app_Cons_same)

lemma testCronExpression_invalid:
  "\<not> validate lib e \<Longrightarrow>
   testCronExpression lib clock e =
     \<lparr>valid = False, nextExecutions = None, test_error = Some ''Invalid cron expression format''\<rparr>"
  by (simp add: testCronExpression_def)

lemma testCronExpression_constant_clock:
  "validate lib e \<Longrightarrow> nextDate lib e t = Inr d \<Longrightarrow>
   testCronExpression lib (\<lambda>i. t) e =
     \<lparr>valid = True, nextExecutions = Some [d, d, d, d, d], test_error = None\<rparr>"
  by (simp add: testCronExpression_def nextDates_loop_constant_clock eval_nat_numeral)

lemma testCronExpression_any_library:
  "valid (testCronExpression lib (\<lambda>i. t) e) \<Longrightarrow>
   \<exists>d. nextExecutions (testCronExpression lib (\<lambda>i. t) e) = Some [d, d, d, d, d]"
proof (cases "nextDate lib e t")
  case (Inl err)
  assume "valid (testCronExpression lib (\<lambda>i. t) e)"
  with Inl show ?thesis
    by (simp add: testCronExpression_def eval_nat_numeral split: if_splits)
next
  case (Inr d)
  assume "valid (testCronExpression lib (\<lambda>i. t) e)"
  then have "validate lib e" by (simp add: testCronExpression_def split: if_splits)
  with Inr show ?thesis by (simp add: testCronExpression_constant_clock)
qed

text \<open>
  With node-cron the first \<^verbatim>\<open>job.nextDate()\<close> throws and the \<^verbatim>\<open>catch\<close> turns a valid
  expression into \<^verbatim>\<open>{valid: false, error}\<close>.
\<close>

lemma testCronExpression_node_cron:
  "accepts e \<Longrightarrow>
   testCronExpression (node_cron accepts) clock e =
     \<lparr>valid = False, nextExecutions = None,
      test_error = Some ''job.nextDate is not a function''\<rparr>"
  by (simp add: testCronExpression_def node_cron_simps eval_nat_numeral)

text \<open>
  C8 on the code. For the expression \<^verbatim>\<open>0 */5 * * * *\<close>, with the clock at 1000 ms
  during the loop, \<open>testCronExpression\<close> returns five times the same timestamp, the
  next fire time: the five calls of \<^verbatim>\<open>job.nextDate()\<close> are made on the same job and
  nothing advances between them. The entries are not five minutes apart.
\<close>

theorem testCronExpression_repeats_one_date:
  "testCronExpression five_minute_cron (\<lambda>i. 1000) every_five =
     \<lparr>valid = True, nextExecutions = Some [300000, 300000, 300000, 300000, 300000],
      test_error = None\<rparr>"
  by (simp add: testCronExpression_constant_clock [where d = 300000] five_minute_cron_simps)

end
